theory Spec2Isabelle
  imports Complex_Main "HOL-Library.Multiset"
begin

section \<open>Strings, errors and the Python runtime\<close>

text \<open>
  A Python \<open>str\<close> is a sequence of Unicode code points; a code point is a natural
  number. Literals of the program are written with \<open>lit\<close>; the two characters of the
  format strings that are not ASCII (the em dash U+2014 and the arrow U+2192) and the
  double quote and newline are named constants.
\<close>

type_synonym codepoint = nat
type_synonym str = "codepoint list"

definition lit :: "string \<Rightarrow> str" where
  "lit s = map of_char s"

definition nl :: str where
  "nl = [10]"

definition dq :: str where
  "dq = [34]"

definition em_dash :: str where
  "em_dash = [8212]"

definition arrow :: str where
  "arrow = [8594]"

text \<open>Formatting of a non-negative Python int inside an f-string: its decimal digits.\<close>

fun str_nat :: "nat \<Rightarrow> str" where
  "str_nat n = (if n < 10 then [48 + n] else str_nat (n div 10) @ [48 + n mod 10])"

declare str_nat.simps [simp del]

text \<open>\<open>sep.join(xs)\<close>.\<close>

fun join :: "str \<Rightarrow> str list \<Rightarrow> str" where
  "join sep [] = []"
| "join sep [x] = x"
| "join sep (x # y # ys) = x @ sep @ join sep (y # ys)"

datatype error =
    ZeroDivisionError
  | IndexError
  | ValueError str
  | FileNotFoundError

text \<open>
  What the program takes from the Python runtime and its \<open>random\<close> module, and does
  not define itself:
  \<^item> \<open>rt_lower\<close> is \<open>str.lower\<close>;
  \<^item> \<open>rt_set_list s\<close> is \<open>list(set(s))\<close>: the distinct characters of \<open>s\<close> in
    the iteration order of the set, which depends on the string hashes of the running
    interpreter and not on the program;
  \<^item> \<open>rt_seed\<close> is \<open>random.Random(seed)\<close>, the generator state made from a seed;
  \<^item> \<open>rt_random\<close> is \<open>Random.random()\<close>: a number in [0, 1) and the next state;
  \<^item> \<open>rt_randbelow n\<close> is \<open>Random._randbelow(n)\<close>: an index below \<open>n\<close> and the
    next state.
  \<open>'r\<close> is the type of generator states.
\<close>

record 'r runtime =
  rt_lower :: "str \<Rightarrow> str"
  rt_set_list :: "str \<Rightarrow> str"
  rt_seed :: "int \<Rightarrow> 'r"
  rt_random :: "'r \<Rightarrow> rat \<times> 'r"
  rt_randbelow :: "nat \<Rightarrow> 'r \<Rightarrow> nat \<times> 'r"

section \<open>Core generation logic\<close>

text \<open>\<open>spell_out\<close>: \<open>"-".join(list(word))\<close>.\<close>

definition spell_out :: "str \<Rightarrow> str" where
  "spell_out word = join (lit ''-'') (map (\<lambda>c. [c]) word)"

text \<open>The f-strings of \<open>build_assistant_response\<close>, one function each.\<close>

definition step1_line :: "str \<Rightarrow> str" where
  "step1_line word =
     lit ''Step 1 '' @ em_dash @ lit '' Spell it out: '' @ spell_out word @ nl"

definition step2_line :: str where
  "step2_line = lit ''Step 2 '' @ em_dash @ lit '' Check each letter:''"

definition match_line :: "nat \<Rightarrow> codepoint \<Rightarrow> nat \<Rightarrow> str" where
  "match_line i char cnt =
     lit ''- Position '' @ str_nat i @ lit '': '' @ [char] @ lit '' '' @ arrow
       @ lit '' MATCH (count = '' @ str_nat cnt @ lit '')''"

definition nomatch_line :: "nat \<Rightarrow> codepoint \<Rightarrow> str \<Rightarrow> nat \<Rightarrow> str" where
  "nomatch_line i char letter cnt =
     lit ''- Position '' @ str_nat i @ lit '': '' @ [char] @ lit '' '' @ arrow
       @ lit '' not '' @ letter @ lit '' (count = '' @ str_nat cnt @ lit '')''"

definition answer_line :: "str \<Rightarrow> nat \<Rightarrow> str \<Rightarrow> str" where
  "answer_line letter cnt word =
     nl @ lit ''**Answer: '' @ dq @ letter @ dq @ lit '' appears '' @ str_nat cnt
       @ lit '' time'' @ (if cnt \<noteq> 1 then lit ''s'' else []) @ lit '' in ''
       @ dq @ word @ dq @ lit ''.**''"

text \<open>
  The loop \<open>for i, char in enumerate(word, start=1)\<close>: the state is the list
  \<open>lines\<close> and the counter (\<open>cnt\<close> here, for the program's \<open>count\<close>); \<open>i\<close> is
  the index of the current character.
\<close>

fun position_loop ::
  "'r runtime \<Rightarrow> str \<Rightarrow> str \<Rightarrow> nat \<Rightarrow> str \<Rightarrow> str list \<times> nat \<Rightarrow> str list \<times> nat"
where
  "position_loop py letter target i [] (lines, cnt) = (lines, cnt)"
| "position_loop py letter target i (char # rest) (lines, cnt) =
     (if rt_lower py [char] = target
      then (let cnt = cnt + 1
            in position_loop py letter target (i + 1) rest
                 (lines @ [match_line i char cnt], cnt))
      else position_loop py letter target (i + 1) rest
             (lines @ [nomatch_line i char letter cnt], cnt))"

text \<open>
  \<open>response_state\<close> is the pair of \<open>lines\<close> and \<open>cnt\<close> when the loop is left;
  \<open>response_lines\<close> is \<open>lines\<close> when the function returns, and the function returns
  its lines joined by newlines.
\<close>

definition response_state :: "'r runtime \<Rightarrow> str \<Rightarrow> str \<Rightarrow> str list \<times> nat" where
  "response_state py word letter =
     (let lines = [];
          lines = lines @ [step1_line word];
          lines = lines @ [step2_line];
          cnt = 0;
          target = rt_lower py letter
      in position_loop py letter target 1 word (lines, cnt))"

definition final_count :: "'r runtime \<Rightarrow> str \<Rightarrow> str \<Rightarrow> nat" where
  "final_count py word letter = snd (response_state py word letter)"

definition response_lines :: "'r runtime \<Rightarrow> str \<Rightarrow> str \<Rightarrow> str list" where
  "response_lines py word letter =
     (let (lines, cnt) = response_state py word letter
      in lines @ [answer_line letter cnt word])"

definition build_assistant_response :: "'r runtime \<Rightarrow> str \<Rightarrow> str \<Rightarrow> str" where
  "build_assistant_response py word letter = join nl (response_lines py word letter)"

text \<open>
  The position lines of a response are its lines between the two header lines and the
  answer line.
\<close>

definition position_lines :: "'r runtime \<Rightarrow> str \<Rightarrow> str \<Rightarrow> str list" where
  "position_lines py word letter = butlast (drop 2 (response_lines py word letter))"

text \<open>
  The number of case-insensitive occurrences of a letter in a word, as the specification
  words it: the characters of the word whose lowercase form is the lowercase form of the
  letter. \<open>running py letter word k\<close> is that number among the first \<open>k\<close> characters.
\<close>

definition occurrences :: "'r runtime \<Rightarrow> str \<Rightarrow> str \<Rightarrow> nat" where
  "occurrences py letter word =
     length (filter (\<lambda>c. rt_lower py [c] = rt_lower py letter) word)"

definition running :: "'r runtime \<Rightarrow> str \<Rightarrow> str \<Rightarrow> nat \<Rightarrow> nat" where
  "running py letter word k = occurrences py letter (take k word)"

text \<open>
  The position line the loop writes for the character of index \<open>k\<close> (from 0) when it
  starts at position index \<open>i\<close> with the counter at \<open>cnt\<close>.
\<close>

definition gen_line :: "'r runtime \<Rightarrow> str \<Rightarrow> nat \<Rightarrow> nat \<Rightarrow> str \<Rightarrow> nat \<Rightarrow> str" where
  "gen_line py letter i cnt word k =
     (if rt_lower py [word ! k] = rt_lower py letter
      then match_line (i + k) (word ! k) (cnt + running py letter word (Suc k))
      else nomatch_line (i + k) (word ! k) letter (cnt + running py letter word (Suc k)))"

record message =
  role :: str
  content :: str

record sample =
  messages :: "message list"

definition build_sample :: "'r runtime \<Rightarrow> str \<Rightarrow> str \<Rightarrow> sample" where
  "build_sample py word letter =
     (let user_message =
            lit ''How many times does the letter '' @ dq @ letter @ dq
              @ lit '' appear in '' @ dq @ word @ dq @ lit ''?'';
          assistant_message = build_assistant_response py word letter
      in \<lparr>messages =
            [\<lparr>role = lit ''user'', content = user_message\<rparr>,
             \<lparr>role = lit ''assistant'', content = assistant_message\<rparr>]\<rparr>)"

text \<open>A sample of a word: what \<open>build_sample\<close> returns for it and some single character.\<close>

definition sample_of :: "'r runtime \<Rightarrow> str \<Rightarrow> sample \<Rightarrow> bool" where
  "sample_of py word s \<longleftrightarrow> (\<exists>letter. length letter = 1 \<and> s = build_sample py word letter)"

section \<open>Sampling strategy\<close>

text \<open>
  \<open>Random.choice(seq)\<close> and \<open>Random.shuffle(x)\<close> of the standard library, over
  \<open>_randbelow\<close>: \<open>choice\<close> raises on an empty sequence and otherwise returns
  \<open>seq[_randbelow(len(seq))]\<close>; \<open>shuffle\<close> runs \<open>i\<close> from \<open>len(x) - 1\<close> down
  to 1, draws \<open>j = _randbelow(i + 1)\<close> and exchanges \<open>x[i]\<close> and \<open>x[j]\<close>. The
  indices \<open>k\<close> and \<open>j\<close> are in range because \<open>_randbelow(n)\<close> is below \<open>n\<close>
  (\<open>rng_ok\<close> below); the theorems that depend on it assume it.
\<close>

definition choice :: "'r runtime \<Rightarrow> 'a list \<Rightarrow> 'r \<Rightarrow> (error + 'a) \<times> 'r" where
  "choice py seq rng =
     (if length seq = 0 then (Inl IndexError, rng)
      else (let (k, rng) = rt_randbelow py (length seq) rng in (Inr (seq ! k), rng)))"

fun shuffle_from :: "'r runtime \<Rightarrow> nat \<Rightarrow> 'a list \<Rightarrow> 'r \<Rightarrow> 'a list \<times> 'r" where
  "shuffle_from py 0 x rng = (x, rng)"
| "shuffle_from py (Suc i') x rng =
     (let i = Suc i';
          (j, rng) = rt_randbelow py (i + 1) rng;
          x = x[i := x ! j, j := x ! i]
      in shuffle_from py i' x rng)"

definition shuffle :: "'r runtime \<Rightarrow> 'a list \<Rightarrow> 'r \<Rightarrow> 'a list \<times> 'r" where
  "shuffle py x rng = shuffle_from py (length x - 1) x rng"

text \<open>
  The literal \<open>0.8\<close> is the binary64 number 3602879701896397 / 2^52; a comparison of
  two floats compares their values exactly.
\<close>

definition float_0_8 :: rat where
  "float_0_8 = 3602879701896397 / 4503599627370496"

definition biased :: "'r runtime \<Rightarrow> 'r \<Rightarrow> bool" where
  "biased py rng = (fst (rt_random py rng) < float_0_8)"

definition pick_letter_for_word :: "'r runtime \<Rightarrow> str \<Rightarrow> 'r \<Rightarrow> (error + str) \<times> 'r" where
  "pick_letter_for_word py word rng =
     (let (x, rng) = rt_random py rng
      in if x < float_0_8
         then (case choice py (rt_set_list py (rt_lower py word)) rng of
                 (Inl e, rng) \<Rightarrow> (Inl e, rng)
               | (Inr c, rng) \<Rightarrow> (Inr [c], rng))
         else (case choice py (lit ''abcdefghijklmnopqrstuvwxyz'') rng of
                 (Inl e, rng) \<Rightarrow> (Inl e, rng)
               | (Inr c, rng) \<Rightarrow> (Inr [c], rng)))"

text \<open>
  \<open>words * k\<close> for an int \<open>k\<close> (the empty list when \<open>k \<le> 0\<close>) and the slice
  \<open>xs[:n]\<close> for an int \<open>n\<close> (a negative \<open>n\<close> counts from the end).
\<close>

definition list_repeat :: "'a list \<Rightarrow> int \<Rightarrow> 'a list" where
  "list_repeat xs k = concat (replicate (nat k) xs)"

definition slice_to :: "int \<Rightarrow> 'a list \<Rightarrow> 'a list" where
  "slice_to n xs = (if 0 \<le> n then take (nat n) xs else take (length xs - nat (- n)) xs)"

text \<open>
  The list comprehension of \<open>generate_samples\<close>: for each word in turn, one call of
  \<open>pick_letter_for_word\<close> on the shared generator, then \<open>build_sample\<close>. An exception
  ends the comprehension.
\<close>

fun samples_loop :: "'r runtime \<Rightarrow> str list \<Rightarrow> 'r \<Rightarrow> error + sample list" where
  "samples_loop py [] rng = Inr []"
| "samples_loop py (word # rest) rng =
     (case pick_letter_for_word py word rng of
        (Inl e, rng) \<Rightarrow> Inl e
      | (Inr letter, rng) \<Rightarrow>
          (case samples_loop py rest rng of
             Inl e \<Rightarrow> Inl e
           | Inr samples \<Rightarrow> Inr (build_sample py word letter # samples)))"

text \<open>
  \<open>generate_samples\<close> raises ZeroDivisionError at \<open>n_samples // len(words)\<close> when
  the list of words is empty. \<open>shuffled_pool\<close> is \<open>word_pool\<close> after
  \<open>rng.shuffle(word_pool)\<close>, with the generator state the shuffle leaves;
  \<open>sampled_words\<close> is \<open>word_pool[:n_samples]\<close>, the words the comprehension runs over,
  that is the words of the generated pairs.
\<close>

definition shuffled_pool :: "'r runtime \<Rightarrow> str list \<Rightarrow> int \<Rightarrow> int \<Rightarrow> str list \<times> 'r" where
  "shuffled_pool py words n_samples seed =
     (let rng = rt_seed py seed;
          word_pool = list_repeat words (n_samples div int (length words) + 1)
      in shuffle py word_pool rng)"

definition sampled_words :: "'r runtime \<Rightarrow> str list \<Rightarrow> int \<Rightarrow> int \<Rightarrow> str list" where
  "sampled_words py words n_samples seed =
     slice_to n_samples (fst (shuffled_pool py words n_samples seed))"

definition generate_samples ::
  "'r runtime \<Rightarrow> str list \<Rightarrow> int \<Rightarrow> int \<Rightarrow> error + sample list"
where
  "generate_samples py words n_samples seed =
     (let rng = rt_seed py seed
      in if length words = 0 then Inl ZeroDivisionError
         else (let word_pool = list_repeat words (n_samples div int (length words) + 1);
                   (word_pool, rng) = shuffle py word_pool rng
               in samples_loop py (slice_to n_samples word_pool) rng))"

section \<open>I/O helpers and the entry point\<close>

text \<open>
  \<open>str.strip()\<close> removes the characters \<open>c\<close> with \<open>c.isspace()\<close> from both ends.
  A file system maps a path to the lines that iterating over the open file yields.
\<close>

definition isspace :: "codepoint \<Rightarrow> bool" where
  "isspace c \<longleftrightarrow>
     (9 \<le> c \<and> c \<le> 13) \<or> (28 \<le> c \<and> c \<le> 32) \<or> c = 133 \<or> c = 160 \<or> c = 5760
     \<or> (8192 \<le> c \<and> c \<le> 8202) \<or> c = 8232 \<or> c = 8233 \<or> c = 8239 \<or> c = 8287
     \<or> c = 12288"

definition strip :: "str \<Rightarrow> str" where
  "strip s = rev (dropWhile isspace (rev (dropWhile isspace s)))"

definition load_words :: "(str \<Rightarrow> str list option) \<Rightarrow> str \<Rightarrow> error + str list" where
  "load_words fs path =
     (case fs path of
        None \<Rightarrow> Inl FileNotFoundError
      | Some f \<Rightarrow>
          (let words = map strip (filter (\<lambda>line. strip line \<noteq> []) f)
           in if words = [] then Inl (ValueError (lit ''No words found in '' @ path))
              else (let words = filter (\<lambda>word. length word \<ge> 3 \<and> length word \<le> 20) words
                    in Inr words)))"

text \<open>
  \<open>main\<close> up to the call of \<open>push_to_hub\<close>: the samples handed to it, or the exception
  that ends the run before it.
\<close>

definition main :: "(str \<Rightarrow> str list option) \<Rightarrow> 'r runtime \<Rightarrow> str \<Rightarrow> int \<Rightarrow> int \<Rightarrow> error + sample list" where
  "main fs py path n_samples seed =
     (case load_words fs path of
        Inl e \<Rightarrow> Inl e
      | Inr words \<Rightarrow> generate_samples py words n_samples seed)"

section \<open>Contracts of the runtime\<close>

text \<open>
  What the proofs use of the runtime, each a property of CPython: \<open>_randbelow(n)\<close>
  is below \<open>n\<close>; \<open>list(set(s))\<close> has the characters of \<open>s\<close>, each once;
  \<open>str.lower\<close> maps no non-empty string to the empty one and maps an ASCII string
  character by character, A to Z to a to z.
\<close>

definition rng_ok :: "'r runtime \<Rightarrow> bool" where
  "rng_ok py \<longleftrightarrow> (\<forall>n rng. 0 < n \<longrightarrow> fst (rt_randbelow py n rng) < n)"

definition set_ok :: "'r runtime \<Rightarrow> bool" where
  "set_ok py \<longleftrightarrow> (\<forall>s. distinct (rt_set_list py s) \<and> set (rt_set_list py s) = set s)"

definition ascii_lower :: "codepoint \<Rightarrow> codepoint" where
  "ascii_lower c = (if 65 \<le> c \<and> c \<le> 90 then c + 32 else c)"

definition lower_ok :: "'r runtime \<Rightarrow> bool" where
  "lower_ok py \<longleftrightarrow>
     (\<forall>s. s \<noteq> [] \<longrightarrow> rt_lower py s \<noteq> []) \<and>
     (\<forall>s. (\<forall>c \<in> set s. c < 128) \<longrightarrow> rt_lower py s = map ascii_lower s)"

text \<open>
  A word lowercases character by character when \<open>word.lower()\<close> is the concatenation
  of the lowercase forms of its characters, each a single character that \<open>lower\<close>
  leaves as it is.
\<close>

definition lowers_charwise :: "'r runtime \<Rightarrow> str \<Rightarrow> bool" where
  "lowers_charwise py word \<longleftrightarrow>
     rt_lower py word = concat (map (\<lambda>c. rt_lower py [c]) word) \<and>
     (\<forall>c \<in> set word. length (rt_lower py [c]) = 1
        \<and> rt_lower py (rt_lower py [c]) = rt_lower py [c])"

definition ascii_letter :: "codepoint \<Rightarrow> bool" where
  "ascii_letter c \<longleftrightarrow> (65 \<le> c \<and> c \<le> 90) \<or> (97 \<le> c \<and> c \<le> 122)"

definition lowercase_letter :: "codepoint \<Rightarrow> bool" where
  "lowercase_letter c \<longleftrightarrow> 97 \<le> c \<and> c \<le> 122"

section \<open>A runtime to evaluate the program on\<close>

text \<open>
  The generator reads its draws off a script: \<open>_randbelow(n)\<close> is the next entry
  modulo \<open>n\<close>, \<open>random()\<close> is a tenth of the next entry modulo 10. Lowercasing is
  Python's on ASCII and on U+0130 (capital I with dot above, whose lowercase form is
  the two characters U+0069 U+0307). The iteration order of a set is a parameter.
\<close>

definition script_randbelow :: "nat \<Rightarrow> nat list \<Rightarrow> nat \<times> nat list" where
  "script_randbelow n rng = (case rng of [] \<Rightarrow> (0, []) | x # xs \<Rightarrow> (x mod n, xs))"

definition script_random :: "nat list \<Rightarrow> rat \<times> nat list" where
  "script_random rng = (case rng of [] \<Rightarrow> (0, []) | x # xs \<Rightarrow> (of_nat (x mod 10) / 10, xs))"

definition lower_char :: "codepoint \<Rightarrow> str" where
  "lower_char c = (if c = 304 then [105, 775] else [ascii_lower c])"

definition lower_str :: "str \<Rightarrow> str" where
  "lower_str s = concat (map lower_char s)"

definition scripted :: "nat list \<Rightarrow> (str \<Rightarrow> str) \<Rightarrow> nat list runtime" where
  "scripted script order =
     \<lparr>rt_lower = lower_str, rt_set_list = order, rt_seed = (\<lambda>seed. script),
      rt_random = script_random, rt_randbelow = script_randbelow\<rparr>"

section \<open>The response: what the loop writes\<close>

text \<open>
  The loop over a word is the loop over its parts in turn; from that, what the loop
  leaves in \<open>lines\<close> and \<open>count\<close> is known in closed form: one line per character,
  each with the number of matches among the characters up to it.
\<close>

lemma position_loop_append:
  "position_loop py letter target i (w1 @ w2) st =
     position_loop py letter target (i + length w1) w2 (position_loop py letter target i w1 st)"
proof (induction w1 arbitrary: i st)
  case Nil
  show ?case by (cases st) simp
next
  case (Cons c w1)
  show ?case by (cases st) (simp add: Cons.IH Let_def)
qed

lemma occurrences_snoc:
  "occurrences py letter (w @ [c]) =
     occurrences py letter w + (if rt_lower py [c] = rt_lower py letter then 1 else 0)"
  by (simp add: occurrences_def)

lemma gen_line_butlast:
  "k < length w \<Longrightarrow> gen_line py letter i cnt (w @ [c]) k = gen_line py letter i cnt w k"
  by (simp add: gen_line_def running_def nth_append)

lemma position_loop_closed:
  "position_loop py letter (rt_lower py letter) i word (lines, cnt) =
     (lines @ map (gen_line py letter i cnt word) [0..<length word],
      cnt + occurrences py letter word)"
proof (induction word rule: rev_induct)
  case Nil
  show ?case by (simp add: occurrences_def)
next
  case (snoc c w)
  have m: "map (gen_line py letter i cnt (w @ [c])) [0..<length w] =
           map (gen_line py letter i cnt w) [0..<length w]"
    by (rule map_cong) (simp_all add: gen_line_butlast)
  have l: "gen_line py letter i cnt (w @ [c]) (length w) =
     (if rt_lower py [c] = rt_lower py letter
      then match_line (i + length w) c (cnt + occurrences py letter w + 1)
      else nomatch_line (i + length w) c letter (cnt + occurrences py letter w))"
    by (simp add: gen_line_def running_def occurrences_snoc)
  show ?case
    by (simp add: position_loop_append snoc.IH m l occurrences_snoc Let_def)
qed

lemma response_state_closed:
  "response_state py word letter =
     ([step1_line word, step2_line] @ map (gen_line py letter 1 0 word) [0..<length word],
      occurrences py letter word)"
  by (simp add: response_state_def position_loop_closed)

lemma response_lines_closed:
  "response_lines py word letter =
     [step1_line word, step2_line] @ map (gen_line py letter 1 0 word) [0..<length word]
       @ [answer_line letter (occurrences py letter word) word]"
  by (simp add: response_lines_def response_state_closed)

lemma position_lines_closed:
  "position_lines py word letter = map (gen_line py letter 1 0 word) [0..<length word]"
  by (simp add: position_lines_def response_lines_closed)

lemma final_count_occurrences: "final_count py word letter = occurrences py letter word"
  by (simp add: final_count_def response_state_closed)

lemma str_nat_1: "str_nat (Suc 0) = [49]"
  by (simp add: str_nat.simps)

lemma running_0: "running py letter word 0 = 0"
  by (simp add: running_def occurrences_def)

lemma running_Suc:
  "k < length word \<Longrightarrow>
   running py letter word (Suc k) =
     running py letter word k + (if rt_lower py [word ! k] = rt_lower py letter then 1 else 0)"
  by (simp add: running_def take_Suc_conv_app_nth occurrences_snoc)

lemma running_mono: "j \<le> k \<Longrightarrow> running py letter word j \<le> running py letter word k"
proof (induction k)
  case 0
  then show ?case by simp
next
  case (Suc k)
  show ?case
  proof (cases "j = Suc k")
    case True
    then show ?thesis by simp
  next
    case False
    with Suc have le: "running py letter word j \<le> running py letter word k" by simp
    show ?thesis
    proof (cases "k < length word")
      case True
      with le show ?thesis by (simp add: running_Suc)
    next
      case False
      then have "running py letter word (Suc k) = running py letter word k"
        by (simp add: running_def)
      with le show ?thesis by simp
    qed
  qed
qed

lemma running_full: "running py letter word (length word) = occurrences py letter word"
  by (simp add: running_def)

lemmas eval_defs =
  scripted_def lower_str_def lower_char_def ascii_lower_def lit_def occurrences_def running_def

text \<open>
  \<open>str_nat\<close> writes a number in decimal: its characters are digits, and read back
  as a decimal numeral they give the number.
\<close>

lemma str_nat_digits: "d \<in> set (str_nat n) \<Longrightarrow> 48 \<le> d \<and> d \<le> 57"
proof (induction n arbitrary: d rule: str_nat.induct)
  case (1 n)
  show ?case
  proof (cases "n < 10")
    case True
    with "1.prems" show ?thesis by (simp add: str_nat.simps [of n])
  next
    case False
    with "1.prems" have "d \<in> set (str_nat (n div 10)) \<or> d = 48 + n mod 10"
      by (auto simp add: str_nat.simps [of n])
    then show ?thesis
    proof
      assume "d \<in> set (str_nat (n div 10))"
      with False show ?thesis by (simp add: "1.IH")
    next
      assume "d = 48 + n mod 10"
      moreover have "n mod 10 < 10" by simp
      ultimately show ?thesis by linarith
    qed
  qed
qed

lemma str_nat_value: "foldl (\<lambda>a d. 10 * a + (d - 48)) 0 (str_nat n) = n"
proof (induction n rule: str_nat.induct)
  case (1 n)
  show ?case
  proof (cases "n < 10")
    case True
    then show ?thesis by (simp add: str_nat.simps [of n])
  next
    case False
    with "1.IH" have "foldl (\<lambda>a d. 10 * a + (d - 48)) 0 (str_nat (n div 10)) = n div 10"
      by simp
    with False show ?thesis by (simp add: str_nat.simps [of n])
  qed
qed

text \<open>
  The string \<open>build_assistant_response\<close> returns, character by character: the two
  header lines, one line per character of the word, an empty line and the answer line.
  The numbers 8212, 8594, 45, 34 and 10 are the em dash, the arrow, the hyphen, the
  double quote and the newline.
\<close>

lemma join_Cons_concat: "join sep (x # xs) = x @ concat (map (\<lambda>y. sep @ y) xs)"
  by (induction xs arbitrary: x) simp_all

lemma spell_out_text: "spell_out word = tl (concat (map (\<lambda>c. [45, c]) word))"
proof (cases word)
  case Nil
  then show ?thesis by (simp add: spell_out_def)
next
  case (Cons c w)
  have "concat (map (\<lambda>y. [45] @ y) (map (\<lambda>c. [c]) w)) = concat (map (\<lambda>c. [45, c]) w)"
    by (induction w) simp_all
  with Cons show ?thesis by (simp add: spell_out_def join_Cons_concat lit_def)
qed

lemma gen_line_text:
  "gen_line py letter 1 0 word k =
     lit ''- Position '' @ str_nat (k + 1) @ lit '': '' @ [word ! k] @ lit '' '' @ [8594]
       @ (if rt_lower py [word ! k] = rt_lower py letter then lit '' MATCH''
          else lit '' not '' @ letter)
       @ lit '' (count = '' @ str_nat (running py letter word (k + 1)) @ lit '')''"
  by (simp add: gen_line_def match_line_def nomatch_line_def arrow_def lit_def)

lemma build_assistant_response_text:
  "build_assistant_response py word letter =
     lit ''Step 1 '' @ [8212] @ lit '' Spell it out: '' @ tl (concat (map (\<lambda>c. [45, c]) word))
       @ [10, 10] @ lit ''Step 2 '' @ [8212] @ lit '' Check each letter:''
       @ concat (map (\<lambda>k.
           [10] @ lit ''- Position '' @ str_nat (k + 1) @ lit '': '' @ [word ! k] @ lit '' ''
             @ [8594]
             @ (if rt_lower py [word ! k] = rt_lower py letter then lit '' MATCH''
                else lit '' not '' @ letter)
             @ lit '' (count = '' @ str_nat (running py letter word (k + 1)) @ lit '')'')
           [0..<length word])
       @ [10, 10] @ lit ''**Answer: '' @ [34] @ letter @ [34] @ lit '' appears ''
       @ str_nat (occurrences py letter word) @ lit '' time''
       @ (if occurrences py letter word = 1 then [] else lit ''s'')
       @ lit '' in '' @ [34] @ word @ [34] @ lit ''.**''"
proof -
  have g: "gen_line py letter 1 0 word = (\<lambda>k.
           lit ''- Position '' @ str_nat (k + 1) @ lit '': '' @ [word ! k] @ lit '' ''
             @ [8594]
             @ (if rt_lower py [word ! k] = rt_lower py letter then lit '' MATCH''
                else lit '' not '' @ letter)
             @ lit '' (count = '' @ str_nat (running py letter word (k + 1)) @ lit '')'')"
    by (rule ext) (rule gen_line_text)
  show ?thesis
    unfolding build_assistant_response_def response_lines_closed g
    by (simp add: join_Cons_concat step1_line_def step2_line_def answer_line_def
          spell_out_text nl_def dq_def em_dash_def o_def)
qed

lemma response_ends_with_answer:
  "build_assistant_response py word letter =
     (lit ''Step 1 '' @ [8212] @ lit '' Spell it out: '' @ tl (concat (map (\<lambda>c. [45, c]) word))
       @ [10, 10] @ lit ''Step 2 '' @ [8212] @ lit '' Check each letter:''
       @ concat (map (\<lambda>k.
           [10] @ lit ''- Position '' @ str_nat (k + 1) @ lit '': '' @ [word ! k] @ lit '' ''
             @ [8594]
             @ (if rt_lower py [word ! k] = rt_lower py letter then lit '' MATCH''
                else lit '' not '' @ letter)
             @ lit '' (count = '' @ str_nat (running py letter word (k + 1)) @ lit '')'')
           [0..<length word]))
     @ [10, 10] @ lit ''**Answer: '' @ [34] @ letter @ [34] @ lit '' appears ''
       @ str_nat (occurrences py letter word) @ lit '' time''
       @ (if occurrences py letter word = 1 then [] else lit ''s'')
       @ lit '' in '' @ [34] @ word @ [34] @ lit ''.**''"
  unfolding build_assistant_response_text by (simp only: append_assoc)

lemma response_ends_with_last_line:
  assumes "word \<noteq> []"
  shows "build_assistant_response py word letter =
     (lit ''Step 1 '' @ [8212] @ lit '' Spell it out: '' @ tl (concat (map (\<lambda>c. [45, c]) word))
       @ [10, 10] @ lit ''Step 2 '' @ [8212] @ lit '' Check each letter:''
       @ concat (map (\<lambda>k.
           [10] @ lit ''- Position '' @ str_nat (k + 1) @ lit '': '' @ [word ! k] @ lit '' ''
             @ [8594]
             @ (if rt_lower py [word ! k] = rt_lower py letter then lit '' MATCH''
                else lit '' not '' @ letter)
             @ lit '' (count = '' @ str_nat (running py letter word (k + 1)) @ lit '')'')
           [0..<length word - 1]))
     @ [10] @ lit ''- Position '' @ str_nat (length word) @ lit '': '' @ [last word]
       @ lit '' '' @ [8594]
       @ (if rt_lower py [last word] = rt_lower py letter then lit '' MATCH''
          else lit '' not '' @ letter)
       @ lit '' (count = '' @ str_nat (occurrences py letter word) @ lit '')''
       @ [10, 10] @ lit ''**Answer: '' @ [34] @ letter @ [34] @ lit '' appears ''
       @ str_nat (occurrences py letter word) @ lit '' time''
       @ (if occurrences py letter word = 1 then [] else lit ''s'')
       @ lit '' in '' @ [34] @ word @ [34] @ lit ''.**''"
proof -
  from assms have u: "[0..<length word] = [0..<length word - 1] @ [length word - 1]"
    by (cases "length word") simp_all
  from assms have l: "word ! (length word - 1) = last word" by (simp add: last_conv_nth)
  from assms have n: "length word - 1 + 1 = length word" by simp
  have r: "running py letter word (length word) = occurrences py letter word"
    by (rule running_full)
  show ?thesis
    unfolding build_assistant_response_text
    by (subst u) (simp only: map_append concat_append list.map concat.simps append_Nil2
          append_assoc l n r)
qed

lemma times_text:
  "str_nat n @ lit '' time'' @ (if n = 1 then [] else lit ''s'') @ rest
     = (if n = 1 then lit ''1 time'' else str_nat n @ lit '' times'') @ rest"
  by (simp add: str_nat_1 lit_def)

text \<open>
  C1. For every word and every letter, the string \<open>build_assistant_response\<close> returns
  ends with the answer line, and the total it states is the number of case-insensitive
  occurrences of the letter in the word; when the word is not empty, the line before
  (an empty line apart) is the position line of the last character, with the length of
  the word as its position index, and the count it reports is that same number.
\<close>

theorem final_count_matches_occurrences:
  "(\<exists>pre. build_assistant_response py word letter =
      pre @ [10, 10] @ lit ''**Answer: '' @ [34] @ letter @ [34] @ lit '' appears ''
        @ str_nat (occurrences py letter word) @ lit '' time''
        @ (if occurrences py letter word = 1 then [] else lit ''s'')
        @ lit '' in '' @ [34] @ word @ [34] @ lit ''.**'')
   \<and> (word \<noteq> [] \<longrightarrow>
      (\<exists>pre. build_assistant_response py word letter =
         pre @ [10] @ lit ''- Position '' @ str_nat (length word) @ lit '': '' @ [last word]
           @ lit '' '' @ [8594]
           @ (if rt_lower py [last word] = rt_lower py letter then lit '' MATCH''
              else lit '' not '' @ letter)
           @ lit '' (count = '' @ str_nat (occurrences py letter word) @ lit '')''
           @ [10, 10] @ lit ''**Answer: '' @ [34] @ letter @ [34] @ lit '' appears ''
           @ str_nat (occurrences py letter word) @ lit '' time''
           @ (if occurrences py letter word = 1 then [] else lit ''s'')
           @ lit '' in '' @ [34] @ word @ [34] @ lit ''.**''))"
proof (intro conjI impI)
  show "\<exists>pre. build_assistant_response py word letter =
      pre @ [10, 10] @ lit ''**Answer: '' @ [34] @ letter @ [34] @ lit '' appears ''
        @ str_nat (occurrences py letter word) @ lit '' time''
        @ (if occurrences py letter word = 1 then [] else lit ''s'')
        @ lit '' in '' @ [34] @ word @ [34] @ lit ''.**''"
    by (rule exI) (rule response_ends_with_answer)
next
  assume "word \<noteq> []"
  then show "\<exists>pre. build_assistant_response py word letter =
         pre @ [10] @ lit ''- Position '' @ str_nat (length word) @ lit '': '' @ [last word]
           @ lit '' '' @ [8594]
           @ (if rt_lower py [last word] = rt_lower py letter then lit '' MATCH''
              else lit '' not '' @ letter)
           @ lit '' (count = '' @ str_nat (occurrences py letter word) @ lit '')''
           @ [10, 10] @ lit ''**Answer: '' @ [34] @ letter @ [34] @ lit '' appears ''
           @ str_nat (occurrences py letter word) @ lit '' time''
           @ (if occurrences py letter word = 1 then [] else lit ''s'')
           @ lit '' in '' @ [34] @ word @ [34] @ lit ''.**''"
    by (intro exI) (rule response_ends_with_last_line)
qed

theorem final_count_matches_occurrences_witness:
  "lit ''mississippi'' \<noteq> [] \<and>
   occurrences (scripted [] remdups) (lit ''S'') (lit ''mississippi'') = 4 \<and>
   (\<exists>pre. build_assistant_response (scripted [] remdups) (lit ''mississippi'') (lit ''S'') =
      pre @ [10] @ lit ''- Position 11: i '' @ [8594] @ lit '' not S (count = 4)''
        @ [10, 10] @ lit ''**Answer: '' @ [34] @ lit ''S'' @ [34] @ lit '' appears 4 times in ''
        @ [34] @ lit ''mississippi'' @ [34] @ lit ''.**'')"
proof -
  have n: "lit ''mississippi'' \<noteq> []" by (simp add: lit_def)
  have o: "occurrences (scripted [] remdups) (lit ''S'') (lit ''mississippi'') = 4"
    by (simp add: eval_defs)
  from final_count_matches_occurrences
         [of "scripted [] remdups" "lit ''mississippi''" "lit ''S''",
          THEN conjunct2, rule_format, OF n]
  have "\<exists>pre. build_assistant_response (scripted [] remdups) (lit ''mississippi'') (lit ''S'') =
      pre @ [10] @ lit ''- Position 11: i '' @ [8594] @ lit '' not S (count = 4)''
        @ [10, 10] @ lit ''**Answer: '' @ [34] @ lit ''S'' @ [34] @ lit '' appears 4 times in ''
        @ [34] @ lit ''mississippi'' @ [34] @ lit ''.**''"
    unfolding o by (simp add: eval_defs str_nat.simps)
  with n o show ?thesis by blast
qed

text \<open>
  C5. In the string \<open>build_assistant_response\<close> returns, the position line of the
  character of index \<open>k\<close> (from 0) shows the running count after that character. The
  running count is 0 before the first character; after a character it is the count
  before plus 1 exactly when the line is labelled MATCH, and the count before when the
  line is labelled "not"; it never decreases along the word.
\<close>

theorem running_count_steps:
  "build_assistant_response py word letter =
     lit ''Step 1 '' @ [8212] @ lit '' Spell it out: '' @ tl (concat (map (\<lambda>c. [45, c]) word))
       @ [10, 10] @ lit ''Step 2 '' @ [8212] @ lit '' Check each letter:''
       @ concat (map (\<lambda>k.
           [10] @ lit ''- Position '' @ str_nat (k + 1) @ lit '': '' @ [word ! k] @ lit '' ''
             @ [8594]
             @ (if rt_lower py [word ! k] = rt_lower py letter then lit '' MATCH''
                else lit '' not '' @ letter)
             @ lit '' (count = '' @ str_nat (running py letter word (k + 1)) @ lit '')'')
           [0..<length word])
       @ [10, 10] @ lit ''**Answer: '' @ [34] @ letter @ [34] @ lit '' appears ''
       @ str_nat (occurrences py letter word) @ lit '' time''
       @ (if occurrences py letter word = 1 then [] else lit ''s'')
       @ lit '' in '' @ [34] @ word @ [34] @ lit ''.**''
   \<and> running py letter word 0 = 0
   \<and> (\<forall>k < length word.
         running py letter word (k + 1) =
           running py letter word k
             + (if rt_lower py [word ! k] = rt_lower py letter then 1 else 0))
   \<and> (\<forall>j k. j \<le> k \<longrightarrow> running py letter word j \<le> running py letter word k)"
  using build_assistant_response_text [of py word letter]
  by (simp add: running_0 running_mono running_Suc)

theorem running_count_steps_witness:
  "build_assistant_response (scripted [] remdups) (lit ''Sass'') (lit ''s'') =
     lit ''Step 1 '' @ [8212] @ lit '' Spell it out: S-a-s-s'' @ [10, 10]
       @ lit ''Step 2 '' @ [8212] @ lit '' Check each letter:'' @ [10]
       @ lit ''- Position 1: S '' @ [8594] @ lit '' MATCH (count = 1)'' @ [10]
       @ lit ''- Position 2: a '' @ [8594] @ lit '' not s (count = 1)'' @ [10]
       @ lit ''- Position 3: s '' @ [8594] @ lit '' MATCH (count = 2)'' @ [10]
       @ lit ''- Position 4: s '' @ [8594] @ lit '' MATCH (count = 3)'' @ [10, 10]
       @ lit ''**Answer: '' @ [34] @ lit ''s'' @ [34] @ lit '' appears 3 times in ''
       @ [34] @ lit ''Sass'' @ [34] @ lit ''.**'' \<and>
   running (scripted [] remdups) (lit ''s'') (lit ''Sass'') 0 = 0 \<and>
   running (scripted [] remdups) (lit ''s'') (lit ''Sass'') 1 = 1 \<and>
   running (scripted [] remdups) (lit ''s'') (lit ''Sass'') 2 = 1 \<and>
   running (scripted [] remdups) (lit ''s'') (lit ''Sass'') 3 = 2"
proof -
  let ?P = "scripted [] remdups"
  let ?W = "lit ''Sass''"
  let ?L = "lit ''s''"
  note T = running_count_steps [of ?P ?W ?L]
  have l: "0 < length ?W" "1 < length ?W" "2 < length ?W"
    by (simp_all add: lit_def)
  have c: "?W ! 0 = 83" "?W ! 1 = 97" "?W ! 2 = 115"
    by (simp_all add: lit_def)
  have m: "(rt_lower ?P [83] = rt_lower ?P ?L) = True"
    "(rt_lower ?P [97] = rt_lower ?P ?L) = False"
    "(rt_lower ?P [115] = rt_lower ?P ?L) = True"
    by (simp_all add: eval_defs)
  have e: "(0::nat) + 1 = 1" "(1::nat) + 1 = 2" "(2::nat) + 1 = 3" "(1::nat) + 0 = 1"
    by simp_all
  from T have r0: "running ?P ?L ?W 0 = 0"
    by (rule conjunct2 [THEN conjunct1])
  from T have A: "\<forall>k < length ?W.
      running ?P ?L ?W (k + 1) =
        running ?P ?L ?W k + (if rt_lower ?P [?W ! k] = rt_lower ?P ?L then 1 else 0)"
    by (rule conjunct2 [THEN conjunct2, THEN conjunct1])
  from A [rule_format, OF l(1)] have r1: "running ?P ?L ?W 1 = 1"
    by (simp only: c m r0 e if_True)
  from A [rule_format, OF l(2)] have r2: "running ?P ?L ?W 2 = 1"
    by (simp only: c m r1 e if_False)
  from A [rule_format, OF l(3)] have r3: "running ?P ?L ?W 3 = 2"
    by (simp only: c m r2 e if_True)
  from T have "build_assistant_response ?P ?W ?L =
     lit ''Step 1 '' @ [8212] @ lit '' Spell it out: S-a-s-s'' @ [10, 10]
       @ lit ''Step 2 '' @ [8212] @ lit '' Check each letter:'' @ [10]
       @ lit ''- Position 1: S '' @ [8594] @ lit '' MATCH (count = 1)'' @ [10]
       @ lit ''- Position 2: a '' @ [8594] @ lit '' not s (count = 1)'' @ [10]
       @ lit ''- Position 3: s '' @ [8594] @ lit '' MATCH (count = 2)'' @ [10]
       @ lit ''- Position 4: s '' @ [8594] @ lit '' MATCH (count = 3)'' @ [10, 10]
       @ lit ''**Answer: '' @ [34] @ lit ''s'' @ [34] @ lit '' appears 3 times in ''
       @ [34] @ lit ''Sass'' @ [34] @ lit ''.**''"
    by (simp add: eval_defs str_nat.simps upt_rec)
  with r0 r1 r2 r3 show ?thesis by blast
qed

text \<open>
  C6. The string \<open>build_assistant_response\<close> returns ends with the answer line, which
  reads "1 time" when the total, the number of occurrences of the letter in the word,
  is 1, and the total followed by "times" for every other total, 0 included.
\<close>

theorem answer_line_pluralization:
  "\<exists>pre. build_assistant_response py word letter =
      pre @ [10, 10] @ lit ''**Answer: '' @ [34] @ letter @ [34] @ lit '' appears ''
        @ (if occurrences py letter word = 1 then lit ''1 time''
           else str_nat (occurrences py letter word) @ lit '' times'')
        @ lit '' in '' @ [34] @ word @ [34] @ lit ''.**''"
  by (rule exI) (rule response_ends_with_answer [unfolded times_text])

theorem answer_line_pluralization_witness:
  "occurrences (scripted [] remdups) (lit ''s'') (lit ''straw'') = 1 \<and>
   (\<exists>pre. build_assistant_response (scripted [] remdups) (lit ''straw'') (lit ''s'') =
      pre @ [10, 10] @ lit ''**Answer: '' @ [34] @ lit ''s'' @ [34]
        @ lit '' appears 1 time in '' @ [34] @ lit ''straw'' @ [34] @ lit ''.**'') \<and>
   occurrences (scripted [] remdups) (lit ''z'') (lit ''straw'') = 0 \<and>
   (\<exists>pre. build_assistant_response (scripted [] remdups) (lit ''straw'') (lit ''z'') =
      pre @ [10, 10] @ lit ''**Answer: '' @ [34] @ lit ''z'' @ [34]
        @ lit '' appears 0 times in '' @ [34] @ lit ''straw'' @ [34] @ lit ''.**'')"
proof -
  have s: "occurrences (scripted [] remdups) (lit ''s'') (lit ''straw'') = 1"
    by (simp add: eval_defs)
  have z: "occurrences (scripted [] remdups) (lit ''z'') (lit ''straw'') = 0"
    by (simp add: eval_defs)
  from answer_line_pluralization [of "scripted [] remdups" "lit ''straw''" "lit ''s''"]
  have a: "\<exists>pre. build_assistant_response (scripted [] remdups) (lit ''straw'') (lit ''s'') =
      pre @ [10, 10] @ lit ''**Answer: '' @ [34] @ lit ''s'' @ [34]
        @ lit '' appears 1 time in '' @ [34] @ lit ''straw'' @ [34] @ lit ''.**''"
    unfolding s by (simp add: lit_def)
  from answer_line_pluralization [of "scripted [] remdups" "lit ''straw''" "lit ''z''"]
  have b: "\<exists>pre. build_assistant_response (scripted [] remdups) (lit ''straw'') (lit ''z'') =
      pre @ [10, 10] @ lit ''**Answer: '' @ [34] @ lit ''z'' @ [34]
        @ lit '' appears 0 times in '' @ [34] @ lit ''straw'' @ [34] @ lit ''.**''"
    unfolding z by (simp add: lit_def str_nat.simps)
  from s a z b show ?thesis by blast
qed

text \<open>
  C10. The string \<open>build_assistant_response\<close> returns has, between the two header
  lines and the answer line, exactly one position line per character of the word, in
  the order of the word; the line of the character of index \<open>k\<close> (from 0) shows the
  position index \<open>k + 1\<close> and that character as the word has it.
\<close>

theorem one_position_line_per_character:
  "build_assistant_response py word letter =
     lit ''Step 1 '' @ [8212] @ lit '' Spell it out: '' @ tl (concat (map (\<lambda>c. [45, c]) word))
       @ [10, 10] @ lit ''Step 2 '' @ [8212] @ lit '' Check each letter:''
       @ concat (map (\<lambda>k.
           [10] @ lit ''- Position '' @ str_nat (k + 1) @ lit '': '' @ [word ! k] @ lit '' ''
             @ [8594]
             @ (if rt_lower py [word ! k] = rt_lower py letter then lit '' MATCH''
                else lit '' not '' @ letter)
             @ lit '' (count = '' @ str_nat (occurrences py letter (take (k + 1) word))
             @ lit '')'')
           [0..<length word])
       @ [10, 10] @ lit ''**Answer: '' @ [34] @ letter @ [34] @ lit '' appears ''
       @ str_nat (occurrences py letter word) @ lit '' time''
       @ (if occurrences py letter word = 1 then [] else lit ''s'')
       @ lit '' in '' @ [34] @ word @ [34] @ lit ''.**''"
  using build_assistant_response_text [of py word letter]
  by (simp only: running_def)

theorem one_position_line_per_character_witness:
  "build_assistant_response (scripted [] remdups) (lit ''saW'') (lit ''w'') =
     lit ''Step 1 '' @ [8212] @ lit '' Spell it out: s-a-W'' @ [10, 10]
       @ lit ''Step 2 '' @ [8212] @ lit '' Check each letter:'' @ [10]
       @ lit ''- Position 1: s '' @ [8594] @ lit '' not w (count = 0)'' @ [10]
       @ lit ''- Position 2: a '' @ [8594] @ lit '' not w (count = 0)'' @ [10]
       @ lit ''- Position 3: W '' @ [8594] @ lit '' MATCH (count = 1)'' @ [10, 10]
       @ lit ''**Answer: '' @ [34] @ lit ''w'' @ [34] @ lit '' appears 1 time in ''
       @ [34] @ lit ''saW'' @ [34] @ lit ''.**''"
  using one_position_line_per_character [of "scripted [] remdups" "lit ''saW''" "lit ''w''"]
  by (simp add: eval_defs str_nat.simps upt_rec)

text \<open>
  The two examples of the specification: "straw" with "s", line by line, and
  "mississippi" with "s", whose final count is 4 and whose answer line says "times".
\<close>

lemma straw_example:
  "response_lines (scripted [] remdups) (lit ''straw'') (lit ''s'') =
     [lit ''Step 1 '' @ em_dash @ lit '' Spell it out: s-t-r-a-w'' @ nl,
      lit ''Step 2 '' @ em_dash @ lit '' Check each letter:'',
      lit ''- Position 1: s '' @ arrow @ lit '' MATCH (count = 1)'',
      lit ''- Position 2: t '' @ arrow @ lit '' not s (count = 1)'',
      lit ''- Position 3: r '' @ arrow @ lit '' not s (count = 1)'',
      lit ''- Position 4: a '' @ arrow @ lit '' not s (count = 1)'',
      lit ''- Position 5: w '' @ arrow @ lit '' not s (count = 1)'',
      nl @ lit ''**Answer: '' @ dq @ lit ''s'' @ dq @ lit '' appears 1 time in ''
        @ dq @ lit ''straw'' @ dq @ lit ''.**'']"
  by code_simp

lemma mississippi_example:
  "final_count (scripted [] remdups) (lit ''mississippi'') (lit ''s'') = 4 \<and>
   last (response_lines (scripted [] remdups) (lit ''mississippi'') (lit ''s'')) =
     nl @ lit ''**Answer: '' @ dq @ lit ''s'' @ dq @ lit '' appears 4 times in ''
       @ dq @ lit ''mississippi'' @ dq @ lit ''.**''"
  by code_simp

section \<open>The sampler: choice, shuffle and the word pool\<close>

text \<open>
  With \<open>_randbelow(n)\<close> below \<open>n\<close>, \<open>choice\<close> returns a member of a non-empty
  sequence and \<open>shuffle\<close> returns a permutation of its list.
\<close>

lemma choice_empty: "choice py [] rng = (Inl IndexError, rng)"
  by (simp add: choice_def)

lemma choice_member:
  assumes "rng_ok py" and "seq \<noteq> []"
  shows "\<exists>c rng'. choice py seq rng = (Inr c, rng') \<and> c \<in> set seq"
proof -
  obtain k rng' where d: "rt_randbelow py (length seq) rng = (k, rng')"
    by (cases "rt_randbelow py (length seq) rng")
  from assms have "fst (rt_randbelow py (length seq) rng) < length seq"
    by (simp add: rng_ok_def)
  with d have "k < length seq" by simp
  with assms d show ?thesis by (simp add: choice_def)
qed

lemma choice_Inr:
  assumes "rng_ok py" and "choice py seq rng = (Inr c, rng')"
  shows "c \<in> set seq"
proof (cases "seq = []")
  case True
  with assms(2) show ?thesis by (simp add: choice_def)
next
  case False
  from choice_member [OF assms(1) False, of rng] assms(2) show ?thesis by auto
qed

lemma shuffle_from_mset:
  assumes "rng_ok py"
  shows "i < length x \<Longrightarrow> mset (fst (shuffle_from py i x rng)) = mset x"
proof (induction i arbitrary: x rng)
  case 0
  show ?case by simp
next
  case (Suc i)
  obtain j rng' where d: "rt_randbelow py (Suc i + 1) rng = (j, rng')"
    by (cases "rt_randbelow py (Suc i + 1) rng")
  from assms have "fst (rt_randbelow py (Suc i + 1) rng) < Suc i + 1"
    by (simp add: rng_ok_def)
  with d Suc.prems have j: "j < length x" by simp
  let ?x = "x[Suc i := x ! j, j := x ! Suc i]"
  from j Suc.prems have m: "mset ?x = mset x" by (simp add: mset_swap)
  from Suc.prems have "i < length ?x" by simp
  then have "mset (fst (shuffle_from py i ?x rng')) = mset ?x" by (rule Suc.IH)
  with m d show ?case by simp
qed

lemma shuffle_mset:
  assumes "rng_ok py"
  shows "mset (fst (shuffle py x rng)) = mset x"
proof (cases "x = []")
  case True
  then show ?thesis by (simp add: shuffle_def)
next
  case False
  then have "length x - 1 < length x" by simp
  then show ?thesis unfolding shuffle_def by (rule shuffle_from_mset [OF assms])
qed

text \<open>The letter picked for a word: when one is returned, and where it comes from.\<close>

lemma pick_letter_unfold:
  assumes "rt_random py rng = (x, rng1)"
  shows "pick_letter_for_word py word rng =
     (case choice py (if x < float_0_8 then rt_set_list py (rt_lower py word)
                      else lit ''abcdefghijklmnopqrstuvwxyz'') rng1 of
        (Inl e, rng) \<Rightarrow> (Inl e, rng)
      | (Inr c, rng) \<Rightarrow> (Inr [c], rng))"
  using assms by (simp add: pick_letter_for_word_def)

lemma pick_letter_Inr:
  assumes "rng_ok py" and "set_ok py"
    and "pick_letter_for_word py word rng = (Inr letter, rng')"
  shows "\<exists>c. letter = [c] \<and>
           (if biased py rng then c \<in> set (rt_lower py word)
            else c \<in> set (lit ''abcdefghijklmnopqrstuvwxyz''))"
proof -
  obtain x rng1 where r: "rt_random py rng = (x, rng1)"
    by (cases "rt_random py rng")
  let ?seq = "if x < float_0_8 then rt_set_list py (rt_lower py word)
              else lit ''abcdefghijklmnopqrstuvwxyz''"
  obtain res rng2 where c: "choice py ?seq rng1 = (res, rng2)"
    by (cases "choice py ?seq rng1")
  from assms(3) have p: "(case (res, rng2) of
        (Inl e, rng) \<Rightarrow> (Inl e, rng)
      | (Inr c, rng) \<Rightarrow> (Inr [c], rng)) = (Inr letter, rng')"
    unfolding pick_letter_unfold [OF r] c .
  show ?thesis
  proof (cases res)
    case (Inl e)
    with p show ?thesis by simp
  next
    case (Inr d)
    with p have l: "letter = [d]" and "rng2 = rng'" by simp_all
    from c Inr have "choice py ?seq rng1 = (Inr d, rng2)" by simp
    with assms(1) have m: "d \<in> set ?seq" by (rule choice_Inr)
    from assms(2) have s: "set (rt_set_list py (rt_lower py word)) = set (rt_lower py word)"
      by (simp add: set_ok_def)
    have b: "biased py rng = (x < float_0_8)" using r by (simp add: biased_def)
    show ?thesis
    proof (cases "x < float_0_8")
      case True
      with m s have "d \<in> set (rt_lower py word)" by simp
      with l b True show ?thesis by simp
    next
      case False
      with m have "d \<in> set (lit ''abcdefghijklmnopqrstuvwxyz'')" by simp
      with l b False show ?thesis by simp
    qed
  qed
qed

lemma pick_letter_total:
  assumes "rng_ok py" and "set_ok py" and "rt_lower py word \<noteq> []"
  shows "\<exists>letter rng'. pick_letter_for_word py word rng = (Inr letter, rng')"
proof -
  obtain x rng1 where r: "rt_random py rng = (x, rng1)"
    by (cases "rt_random py rng")
  let ?seq = "if x < float_0_8 then rt_set_list py (rt_lower py word)
              else lit ''abcdefghijklmnopqrstuvwxyz''"
  from assms(2) have "set (rt_set_list py (rt_lower py word)) = set (rt_lower py word)"
    by (simp add: set_ok_def)
  with assms(3) have "set (rt_set_list py (rt_lower py word)) \<noteq> {}" by simp
  then have ne: "rt_set_list py (rt_lower py word) \<noteq> []" by auto
  have al: "lit ''abcdefghijklmnopqrstuvwxyz'' \<noteq> []" by (simp add: lit_def)
  from ne al have "?seq \<noteq> []" by simp
  from choice_member [OF assms(1) this, of rng1]
  obtain c rng' where "choice py ?seq rng1 = (Inr c, rng')" by blast
  then have "pick_letter_for_word py word rng = (Inr [c], rng')"
    unfolding pick_letter_unfold [OF r] by simp
  then show ?thesis by blast
qed

lemma samples_loop_total:
  assumes "rng_ok py" and "set_ok py"
  shows "\<forall>w \<in> set ws. rt_lower py w \<noteq> [] \<Longrightarrow>
         \<exists>samples. samples_loop py ws rng = Inr samples \<and> list_all2 (sample_of py) ws samples"
proof (induction ws arbitrary: rng)
  case Nil
  show ?case by simp
next
  case (Cons w ws)
  from Cons.prems have "rt_lower py w \<noteq> []" by simp
  from pick_letter_total [OF assms this, of rng]
  obtain letter rng' where p: "pick_letter_for_word py w rng = (Inr letter, rng')" by blast
  from pick_letter_Inr [OF assms p] have l: "length letter = 1" by auto
  from Cons.prems have "\<forall>w \<in> set ws. rt_lower py w \<noteq> []" by simp
  from Cons.IH [OF this, of rng'] obtain samples where
    s: "samples_loop py ws rng' = Inr samples" "list_all2 (sample_of py) ws samples" by blast
  from l have "sample_of py w (build_sample py w letter)"
    unfolding sample_of_def by blast
  with p s show ?case by simp
qed

lemma list_all2_setD:
  "list_all2 P xs ys \<Longrightarrow> y \<in> set ys \<Longrightarrow> \<exists>x \<in> set xs. P x y"
  by (induction rule: list_all2_induct) auto



lemma pool_size:
  assumes "words \<noteq> []" and "0 \<le> n"
  shows "nat n \<le> nat (n div int (length words) + 1) * length words"
    and "nat (n div int (length words) + 1) * length words - nat n
           = length words - nat (n mod int (length words))"
    and "nat (n div int (length words) + 1) = nat (n div int (length words)) + 1"
proof -
  let ?L = "int (length words)"
  from assms have L: "0 < ?L" by simp
  with assms have q: "0 \<le> n div ?L" by (simp add: pos_imp_zdiv_nonneg_iff)
  from L have r: "0 \<le> n mod ?L" "n mod ?L < ?L" by simp_all
  have n: "?L * (n div ?L) + n mod ?L = n" by (rule mult_div_mod_eq)
  have x: "(n div ?L + 1) * ?L = ?L * (n div ?L) + ?L" by (simp add: algebra_simps)
  show 3: "nat (n div ?L + 1) = nat (n div ?L) + 1" using q by simp
  have e: "int (nat (n div ?L + 1) * length words) = (n div ?L + 1) * ?L"
    using q by simp
  from n x r e assms show "nat n \<le> nat (n div ?L + 1) * length words" by linarith
  from n x r e assms show "nat (n div ?L + 1) * length words - nat n
           = length words - nat (n mod ?L)" by linarith
qed

lemma length_list_repeat: "length (list_repeat xs k) = nat k * length xs"
  by (simp add: list_repeat_def length_concat sum_list_replicate)

lemma set_list_repeat: "set (list_repeat xs k) \<subseteq> set xs"
  by (auto simp: list_repeat_def)


lemma shuffled_pool_mset:
  assumes "rng_ok py"
  shows "mset (fst (shuffled_pool py words n seed)) =
         mset (list_repeat words (n div int (length words) + 1))"
  by (simp add: shuffled_pool_def shuffle_mset [OF assms])

lemma generate_samples_eq:
  "words \<noteq> [] \<Longrightarrow>
   generate_samples py words n seed =
     samples_loop py (sampled_words py words n seed) (snd (shuffled_pool py words n seed))"
  by (simp add: generate_samples_def sampled_words_def shuffled_pool_def split: prod.splits)

lemma set_slice_to: "set (slice_to n xs) \<subseteq> set xs"
  by (simp add: slice_to_def set_take_subset)

lemma sampled_words_subset:
  assumes "rng_ok py"
  shows "set (sampled_words py words n seed) \<subseteq> set words"
proof -
  let ?pool = "list_repeat words (n div int (length words) + 1)"
  have "set (fst (shuffled_pool py words n seed)) = set ?pool"
    using shuffled_pool_mset [OF assms] by (rule mset_eq_setD)
  also have "\<dots> \<subseteq> set words" by (rule set_list_repeat)
  finally have "set (fst (shuffled_pool py words n seed)) \<subseteq> set words" .
  moreover have "set (sampled_words py words n seed) \<subseteq> set (fst (shuffled_pool py words n seed))"
    unfolding sampled_words_def by (rule set_slice_to)
  ultimately show ?thesis by (rule order_trans [rotated])
qed

lemma shuffled_pool_length:
  assumes "rng_ok py"
  shows "length (fst (shuffled_pool py words n seed)) =
         nat (n div int (length words) + 1) * length words"
proof -
  have "size (mset (fst (shuffled_pool py words n seed))) =
        size (mset (list_repeat words (n div int (length words) + 1)))"
    by (simp only: shuffled_pool_mset [OF assms])
  then show ?thesis by (simp add: length_list_repeat)
qed

lemma sampled_words_length:
  assumes "rng_ok py" and "words \<noteq> []" and "0 \<le> n"
  shows "length (sampled_words py words n seed) = nat n"
  using assms pool_size(1) [OF assms(2,3)]
  by (simp add: sampled_words_def slice_to_def shuffled_pool_length)


text \<open>Lowercasing character by character; the lowercase letters.\<close>

lemma ascii_lower_idem: "ascii_lower (ascii_lower c) = ascii_lower c"
  by (simp add: ascii_lower_def)

lemma ascii_lower_ascii: "c < 128 \<Longrightarrow> ascii_lower c < 128"
  by (simp add: ascii_lower_def)

lemma ascii_lowers_charwise:
  assumes "lower_ok py" and "\<forall>c \<in> set word. c < 128"
  shows "lowers_charwise py word"
proof -
  from assms(1) have L: "rt_lower py s = map ascii_lower s" if "\<forall>c \<in> set s. c < 128" for s
    using that by (simp add: lower_ok_def)
  have one: "rt_lower py [c] = [ascii_lower c]" if "c < 128" for c
    using that by (simp add: L)
  have two: "rt_lower py (rt_lower py [c]) = rt_lower py [c]" if "c < 128" for c
    using that by (simp add: one ascii_lower_ascii ascii_lower_idem)
  have cc: "concat (map (\<lambda>c. rt_lower py [c]) word) = map ascii_lower word"
    using assms(2) by (induction word) (simp_all add: one)
  show ?thesis
    unfolding lowers_charwise_def
  proof (intro conjI ballI)
    show "rt_lower py word = concat (map (\<lambda>c. rt_lower py [c]) word)"
      using assms(2) by (simp only: cc L)
  next
    fix c assume "c \<in> set word"
    with assms(2) have c: "c < 128" by blast
    then show "length (rt_lower py [c]) = 1" by (simp add: one)
    from c show "rt_lower py (rt_lower py [c]) = rt_lower py [c]" by (rule two)
  qed
qed

lemma charwise_member:
  assumes "lowers_charwise py word" and "x \<in> set (rt_lower py word)"
  shows "\<exists>c \<in> set word. rt_lower py [c] = [x]"
proof -
  from assms have "x \<in> set (concat (map (\<lambda>c. rt_lower py [c]) word))"
    by (simp add: lowers_charwise_def)
  then obtain c where c: "c \<in> set word" and x: "x \<in> set (rt_lower py [c])" by auto
  from assms(1) c have "length (rt_lower py [c]) = 1" by (simp add: lowers_charwise_def)
  then obtain y where "rt_lower py [c] = [y]" by (cases "rt_lower py [c]") auto
  with x c show ?thesis by auto
qed

lemma occurrences_pos:
  assumes "c \<in> set word" and "rt_lower py [c] = rt_lower py letter"
  shows "1 \<le> occurrences py letter word"
proof -
  from assms have "c \<in> set (filter (\<lambda>c. rt_lower py [c] = rt_lower py letter) word)" by simp
  then have "0 < length (filter (\<lambda>c. rt_lower py [c] = rt_lower py letter) word)"
    by (rule length_pos_if_in_set)
  then have "1 \<le> length (filter (\<lambda>c. rt_lower py [c] = rt_lower py letter) word)"
    by linarith
  then show ?thesis by (simp only: occurrences_def)
qed

lemma charwise_lower_nonempty:
  assumes "lowers_charwise py word" and "word \<noteq> []"
  shows "rt_lower py word \<noteq> []"
proof -
  from assms(2) obtain c where c: "c \<in> set word" by (cases word) auto
  with assms(1) have "length (rt_lower py [c]) = 1" by (simp add: lowers_charwise_def)
  then have "rt_lower py [c] \<noteq> []" by auto
  with c have "concat (map (\<lambda>c. rt_lower py [c]) word) \<noteq> []" by auto
  with assms(1) show ?thesis by (simp add: lowers_charwise_def)
qed

lemma alphabet_lowercase:
  "c \<in> set (lit ''abcdefghijklmnopqrstuvwxyz'') \<Longrightarrow> lowercase_letter c"
  by (auto simp: lit_def lowercase_letter_def)

lemma ascii_lower_letter: "ascii_letter c \<Longrightarrow> lowercase_letter (ascii_lower c)"
  by (auto simp: ascii_letter_def lowercase_letter_def ascii_lower_def)

text \<open>The scripted runtime meets the contracts.\<close>

lemma scripted_rng_ok: "rng_ok (scripted script order)"
  by (simp add: rng_ok_def scripted_def script_randbelow_def split: list.split)

lemma scripted_set_ok:
  "(\<And>s. distinct (order s) \<and> set (order s) = set s) \<Longrightarrow> set_ok (scripted script order)"
  by (simp add: set_ok_def scripted_def)

lemma scripted_set_ok_remdups: "set_ok (scripted script remdups)"
  by (rule scripted_set_ok) simp

lemma scripted_set_ok_rotate_remdups: "set_ok (scripted script (\<lambda>s. rotate k (remdups s)))"
  by (rule scripted_set_ok) simp

lemma lower_str_ascii: "\<forall>c \<in> set s. c < 128 \<Longrightarrow> lower_str s = map ascii_lower s"
  by (induction s) (simp_all add: lower_str_def lower_char_def)

lemma lower_str_nonempty: "s \<noteq> [] \<Longrightarrow> lower_str s \<noteq> []"
  by (cases s) (simp_all add: lower_str_def lower_char_def)

lemma scripted_lower_ok: "lower_ok (scripted script order)"
  by (simp add: lower_ok_def scripted_def lower_str_ascii lower_str_nonempty)

section \<open>Properties of the sampler\<close>




text \<open>
  C7. For a non-empty list of words, each of length 3 to 20, and \<open>n \<ge> 0\<close>,
  \<open>generate_samples\<close> returns (raises nothing), and returns exactly \<open>n\<close> samples; each
  is the user message with the question for a word of the list and a single character,
  followed by the assistant message with the response for that word and character.
\<close>

theorem generate_samples_returns_n_samples:
  assumes "rng_ok py" and "set_ok py" and "lower_ok py"
    and "words \<noteq> []" and "\<forall>w \<in> set words. 3 \<le> length w \<and> length w \<le> 20"
    and "0 \<le> n"
  shows "\<exists>samples. generate_samples py words n seed = Inr samples \<and> length samples = nat n \<and>
     (\<forall>s \<in> set samples. \<exists>word letter. word \<in> set words \<and> length letter = 1 \<and>
        messages s =
          [\<lparr>role = lit ''user'',
            content = lit ''How many times does the letter '' @ dq @ letter @ dq
                        @ lit '' appear in '' @ dq @ word @ dq @ lit ''?''\<rparr>,
           \<lparr>role = lit ''assistant'',
            content = build_assistant_response py word letter\<rparr>])"
proof -
  let ?ws = "sampled_words py words n seed"
  have sub: "set ?ws \<subseteq> set words" by (rule sampled_words_subset [OF assms(1)])
  have "\<forall>w \<in> set ?ws. rt_lower py w \<noteq> []"
  proof
    fix w assume "w \<in> set ?ws"
    with sub assms(5) have "3 \<le> length w" by blast
    then have "w \<noteq> []" by auto
    with assms(3) show "rt_lower py w \<noteq> []" by (simp add: lower_ok_def)
  qed
  from samples_loop_total [OF assms(1,2) this, of "snd (shuffled_pool py words n seed)"]
  obtain samples where
    s: "samples_loop py ?ws (snd (shuffled_pool py words n seed)) = Inr samples"
    and a: "list_all2 (sample_of py) ?ws samples" by blast
  from s have g: "generate_samples py words n seed = Inr samples"
    by (simp add: generate_samples_eq [OF assms(4)])
  from a have "length samples = length ?ws" by (simp add: list_all2_lengthD)
  then have l: "length samples = nat n"
    by (simp add: sampled_words_length [OF assms(1,4,6)])
  have "\<exists>word letter. word \<in> set words \<and> length letter = 1 \<and>
        messages s =
          [\<lparr>role = lit ''user'',
            content = lit ''How many times does the letter '' @ dq @ letter @ dq
                        @ lit '' appear in '' @ dq @ word @ dq @ lit ''?''\<rparr>,
           \<lparr>role = lit ''assistant'',
            content = build_assistant_response py word letter\<rparr>]"
    if "s \<in> set samples" for s
  proof -
    from list_all2_setD [OF a that] obtain word where
      w: "word \<in> set ?ws" and "sample_of py word s" by blast
    then obtain letter where "length letter = 1" and "s = build_sample py word letter"
      unfolding sample_of_def by blast
    with w sub show ?thesis by (auto simp: build_sample_def)
  qed
  with g l show ?thesis by blast
qed

theorem generate_samples_returns_n_samples_witness:
  "\<exists>samples. generate_samples (scripted [0, 0, 0, 7, 1, 9, 25] remdups)
                [lit ''straw'', lit ''mississippi''] 3 42 = Inr samples
      \<and> length samples = 3"
proof -
  let ?ws = "[lit ''straw'', lit ''mississippi'']"
  have ne: "?ws \<noteq> []" by simp
  have len: "\<forall>w \<in> set ?ws. 3 \<le> length w \<and> length w \<le> 20" by (simp add: lit_def)
  have n: "(0::int) \<le> 3" by simp
  from generate_samples_returns_n_samples
         [OF scripted_rng_ok [of "[0, 0, 0, 7, 1, 9, 25]" remdups]
             scripted_set_ok_remdups scripted_lower_ok ne len n, where seed = 42]
  show ?thesis by auto
qed

text \<open>
  Where the word lowercases character by character (every ASCII word does, see
  \<open>ascii_lowers_charwise\<close>), the biased branch returns the lowercase form of a
  character of the word, and the final count of the response for it is at least 1.
\<close>

lemma biased_pick_occurs_in_word:
  assumes "rng_ok py" and "set_ok py" and "lowers_charwise py word" and "biased py rng"
  shows "(word \<noteq> [] \<longrightarrow> (\<exists>letter rng'. pick_letter_for_word py word rng = (Inr letter, rng')))
     \<and> (\<forall>letter rng'. pick_letter_for_word py word rng = (Inr letter, rng') \<longrightarrow>
           (\<exists>c \<in> set word. rt_lower py [c] = rt_lower py letter)
           \<and> 1 \<le> final_count py word letter
           \<and> last (response_lines py word letter)
                = answer_line letter (final_count py word letter) word)"
proof (intro conjI allI impI)
  assume "word \<noteq> []"
  with assms(3) have "rt_lower py word \<noteq> []" by (rule charwise_lower_nonempty)
  with assms(1,2) show "\<exists>letter rng'. pick_letter_for_word py word rng = (Inr letter, rng')"
    by (rule pick_letter_total)
next
  fix letter rng'
  assume p: "pick_letter_for_word py word rng = (Inr letter, rng')"
  from pick_letter_Inr [OF assms(1,2) p] assms(4)
  obtain x where l: "letter = [x]" and x: "x \<in> set (rt_lower py word)" by auto
  from charwise_member [OF assms(3) x] obtain c where
    c: "c \<in> set word" and e: "rt_lower py [c] = [x]" by blast
  from assms(3) c have "rt_lower py (rt_lower py [c]) = rt_lower py [c]"
    by (simp add: lowers_charwise_def)
  with e l have m: "rt_lower py [c] = rt_lower py letter" by simp
  with c show "\<exists>c \<in> set word. rt_lower py [c] = rt_lower py letter" by blast
  from c m show "1 \<le> final_count py word letter"
    by (simp only: final_count_occurrences occurrences_pos)
  show "last (response_lines py word letter)
          = answer_line letter (final_count py word letter) word"
    by (simp add: response_lines_closed final_count_occurrences)
qed

text \<open>
  C8. The biased branch draws from the characters of \<open>word.lower()\<close>, while the
  response compares the lowercase form of each character of the word with the letter.
  U+0130 lowercases to the two characters U+0069 U+0307: for the word of three U+0130
  the biased branch returns "i" (U+0069), which is no character of the word and the
  lowercase form of none, and the response for it counts 0 on every line and answers
  "appears 0 times".
\<close>

theorem biased_pick_counts_zero:
  "biased (scripted [] remdups) [0, 0] \<and>
   rt_lower (scripted [] remdups) [304, 304, 304] = [105, 775, 105, 775, 105, 775] \<and>
   pick_letter_for_word (scripted [] remdups) [304, 304, 304] [0, 0] = (Inr [105], []) \<and>
   (105::nat) \<notin> set [304, 304, 304] \<and>
   rt_lower (scripted [] remdups) [304] = [105, 775] \<and>
   rt_lower (scripted [] remdups) [105] = [105] \<and>
   build_assistant_response (scripted [] remdups) [304, 304, 304] [105] =
     lit ''Step 1 '' @ [8212] @ lit '' Spell it out: '' @ [304, 45, 304, 45, 304] @ [10, 10]
       @ lit ''Step 2 '' @ [8212] @ lit '' Check each letter:'' @ [10]
       @ lit ''- Position 1: '' @ [304] @ lit '' '' @ [8594] @ lit '' not i (count = 0)'' @ [10]
       @ lit ''- Position 2: '' @ [304] @ lit '' '' @ [8594] @ lit '' not i (count = 0)'' @ [10]
       @ lit ''- Position 3: '' @ [304] @ lit '' '' @ [8594] @ lit '' not i (count = 0)''
       @ [10, 10] @ lit ''**Answer: '' @ [34] @ lit ''i'' @ [34] @ lit '' appears 0 times in ''
       @ [34] @ [304, 304, 304] @ [34] @ lit ''.**''"
  by code_simp

text \<open>
  For a word of the letters A to Z and a to z, a letter \<open>pick_letter_for_word\<close> returns
  is a single character from a to z: in the biased branch a character of the lowercased
  word, otherwise one of the 26 of the alphabet string.
\<close>

lemma picked_letter_is_lowercase:
  assumes "rng_ok py" and "set_ok py" and "lower_ok py"
    and "\<forall>c \<in> set word. ascii_letter c"
  shows "(word \<noteq> [] \<longrightarrow> (\<exists>letter rng'. pick_letter_for_word py word rng = (Inr letter, rng')))
     \<and> (\<forall>letter rng'. pick_letter_for_word py word rng = (Inr letter, rng') \<longrightarrow>
           (\<exists>c. letter = [c] \<and> lowercase_letter c
              \<and> (if biased py rng then c \<in> set (rt_lower py word)
                  else c \<in> set (lit ''abcdefghijklmnopqrstuvwxyz''))))"
proof (intro conjI allI impI)
  assume "word \<noteq> []"
  with assms(3) have "rt_lower py word \<noteq> []" by (simp add: lower_ok_def)
  with assms(1,2) show "\<exists>letter rng'. pick_letter_for_word py word rng = (Inr letter, rng')"
    by (rule pick_letter_total)
next
  fix letter rng'
  assume p: "pick_letter_for_word py word rng = (Inr letter, rng')"
  from assms(4) have "\<forall>c \<in> set word. c < 128" by (auto simp: ascii_letter_def)
  with assms(3) have L: "rt_lower py word = map ascii_lower word" by (simp add: lower_ok_def)
  from pick_letter_Inr [OF assms(1,2) p] obtain c where
    l: "letter = [c]" and
    c: "if biased py rng then c \<in> set (rt_lower py word)
        else c \<in> set (lit ''abcdefghijklmnopqrstuvwxyz'')" by blast
  have "lowercase_letter c"
  proof (cases "biased py rng")
    case True
    with c L obtain d where "d \<in> set word" and "c = ascii_lower d" by auto
    with assms(4) show ?thesis by (simp add: ascii_lower_letter)
  next
    case False
    with c show ?thesis by (simp add: alphabet_lowercase)
  qed
  with l c show "\<exists>c. letter = [c] \<and> lowercase_letter c
              \<and> (if biased py rng then c \<in> set (rt_lower py word)
                  else c \<in> set (lit ''abcdefghijklmnopqrstuvwxyz''))" by blast
qed

text \<open>
  C9. For the word of three U+0130 (a letter: \<open>str.isalpha\<close> holds of it), the
  lowercased word has the two distinct characters U+0069 and U+0307, and the biased
  branch can return U+0307, the combining dot above: a character that is not in the
  word, not a letter and not one of a to z. It is passed on to \<open>build_sample\<close> as
  the letter of the question.
\<close>

theorem biased_pick_returns_combining_mark:
  "biased (scripted [] remdups) [0, 1] \<and>
   rt_lower (scripted [] remdups) [304, 304, 304] = [105, 775, 105, 775, 105, 775] \<and>
   rt_set_list (scripted [] remdups) [105, 775, 105, 775, 105, 775] = [105, 775] \<and>
   pick_letter_for_word (scripted [] remdups) [304, 304, 304] [0, 1] = (Inr [775], []) \<and>
   (775::nat) \<notin> set [304, 304, 304] \<and>
   775 \<notin> set (lit ''abcdefghijklmnopqrstuvwxyz'') \<and>
   messages (build_sample (scripted [] remdups) [304, 304, 304] [775]) ! 0 =
     \<lparr>role = lit ''user'',
      content = lit ''How many times does the letter '' @ [34, 775, 34] @ lit '' appear in ''
                  @ [34, 304, 304, 304, 34] @ lit ''?''\<rparr>"
  by code_simp

text \<open>
  C4. The samples depend on the iteration order of \<open>set(word.lower())\<close>, which the seed
  does not fix: with the same words, the same \<open>n_samples\<close>, the same seed and the same
  draws of the generator (the index 1 for the choice), the iteration orders a, b, c and
  c, a, b of the set of the characters of "abc" give the letters "b" and "a", hence two
  different outputs.
\<close>

theorem set_order_changes_samples:
  "set_ok (scripted [0, 0, 1] remdups) \<and>
   set_ok (scripted [0, 0, 1] (\<lambda>s. rotate 2 (remdups s))) \<and>
   rt_set_list (scripted [0, 0, 1] remdups) (lit ''abc'') = lit ''abc'' \<and>
   rt_set_list (scripted [0, 0, 1] (\<lambda>s. rotate 2 (remdups s))) (lit ''abc'') = lit ''cab'' \<and>
   generate_samples (scripted [0, 0, 1] remdups) [lit ''abc''] 1 42
     = Inr [build_sample (scripted [0, 0, 1] remdups) (lit ''abc'') (lit ''b'')] \<and>
   generate_samples (scripted [0, 0, 1] (\<lambda>s. rotate 2 (remdups s))) [lit ''abc''] 1 42
     = Inr [build_sample (scripted [0, 0, 1] (\<lambda>s. rotate 2 (remdups s)))
              (lit ''abc'') (lit ''a'')] \<and>
   generate_samples (scripted [0, 0, 1] remdups) [lit ''abc''] 1 42
     \<noteq> generate_samples (scripted [0, 0, 1] (\<lambda>s. rotate 2 (remdups s))) [lit ''abc''] 1 42"
proof -
  have "rt_set_list (scripted [0, 0, 1] remdups) (lit ''abc'') = lit ''abc''"
    and "rt_set_list (scripted [0, 0, 1] (\<lambda>s. rotate 2 (remdups s))) (lit ''abc'') = lit ''cab''"
    by code_simp+
  moreover have "generate_samples (scripted [0, 0, 1] remdups) [lit ''abc''] 1 42
     = Inr [build_sample (scripted [0, 0, 1] remdups) (lit ''abc'') (lit ''b'')]"
    by code_simp
  moreover have "generate_samples (scripted [0, 0, 1] (\<lambda>s. rotate 2 (remdups s))) [lit ''abc''] 1 42
     = Inr [build_sample (scripted [0, 0, 1] (\<lambda>s. rotate 2 (remdups s)))
              (lit ''abc'') (lit ''a'')]"
    by code_simp
  moreover have "generate_samples (scripted [0, 0, 1] remdups) [lit ''abc''] 1 42
     \<noteq> generate_samples (scripted [0, 0, 1] (\<lambda>s. rotate 2 (remdups s))) [lit ''abc''] 1 42"
    by code_simp
  ultimately show ?thesis
    using scripted_set_ok_remdups scripted_set_ok_rotate_remdups by blast
qed

text \<open>
  C3. A file whose non-blank lines are all shorter than 3 or longer than 20 characters
  passes the check of \<open>load_words\<close>, which comes before the filter; \<open>load_words\<close>
  returns the empty list and the run ends in \<open>generate_samples\<close> with
  ZeroDivisionError. Only a file with no non-blank line gets the ValueError
  "No words found".
\<close>

theorem filtered_out_words_raise_zero_division:
  "load_words [lit ''words.txt'' \<mapsto> [lit ''ab'' @ nl, lit ''I'' @ nl, nl]] (lit ''words.txt'')
     = Inr [] \<and>
   main [lit ''words.txt'' \<mapsto> [lit ''ab'' @ nl, lit ''I'' @ nl, nl]] (scripted [] remdups)
        (lit ''words.txt'') 5000 42
     = Inl ZeroDivisionError \<and>
   load_words [lit ''words.txt'' \<mapsto> [nl, lit ''  '' @ nl]] (lit ''words.txt'')
     = Inl (ValueError (lit ''No words found in words.txt''))"
  by code_simp

end
